theory Spec2Isabelle
  imports Main
begin

section \<open>JavaScript values\<close>

text \<open>
  The values the client code passes around: payloads of network responses, the layout and
  filter objects of a dashboard. A number is an integer here (status codes, lengths and ids
  are), an object is the list of its own properties.
\<close>

datatype jsval =
    JUndefined
  | JNull
  | JBool bool
  | JNum int
  | JStr string
  | JObj "(string \<times> jsval) list"

datatype js_error =
    TypeError
  | Error string

text \<open>Reading an own property of an object: a missing property reads as \<open>undefined\<close>.\<close>

definition field :: "(string \<times> jsval) list \<Rightarrow> string \<Rightarrow> jsval" where
  "field fs k = (case map_of fs k of None \<Rightarrow> JUndefined | Some v \<Rightarrow> v)"

text \<open>
  \<open>v.k\<close>: a TypeError on \<open>undefined\<close> and \<open>null\<close>; on the other primitives the
  properties read below (\<open>status\<close>, \<open>data\<close>, \<open>message\<close>) do not exist.
\<close>

fun getprop :: "jsval \<Rightarrow> string \<Rightarrow> js_error + jsval" where
  "getprop JUndefined k = Inl TypeError"
| "getprop JNull k = Inl TypeError"
| "getprop (JObj fs) k = Inr (field fs k)"
| "getprop (JBool b) k = Inr JUndefined"
| "getprop (JNum n) k = Inr JUndefined"
| "getprop (JStr s) k = Inr JUndefined"

section \<open>Response utilities\<close>

text \<open>
  \<^verbatim>\<open>
  export const callbackHandler = (response, callback) => {
      callback && callback(
          response.status === 200?true:false,
          response.status === 200?response.data:response.message
      );
  };
  \<close>
  The callback is a function of the success flag and the payload, or is missing (\<open>None\<close>);
  the result is what the callback was called with, \<open>None\<close> when it was not called.
  Strict equality with the number 200 is equality with \<open>JNum 200\<close>.
\<close>

definition callbackHandler ::
  "jsval \<Rightarrow> (jsval \<Rightarrow> jsval \<Rightarrow> 'r) option \<Rightarrow> js_error + 'r option" where
  "callbackHandler response callback =
     (case callback of
        None \<Rightarrow> Inr None
      | Some cb \<Rightarrow>
          (case getprop response ''status'' of
             Inl e \<Rightarrow> Inl e
           | Inr st \<Rightarrow>
               (case (if st = JNum 200 then getprop response ''data''
                      else getprop response ''message'') of
                  Inl e \<Rightarrow> Inl e
                | Inr payload \<Rightarrow>
                    Inr (Some (cb (if st = JNum 200 then JBool True else JBool False) payload)))))"

text \<open>
  \<^verbatim>\<open>
  export const json = (response) => {
      if (!response || !response.json || response.status == 404) {
          throw new Error('no response');
      } else {
          return response.json();
      }
  };
  \<close>
  The argument is the response object of a fetch, or nothing (\<open>None\<close>). Its status is a
  number, on which \<open>==\<close> is equality; its \<open>json\<close> member is a method returning the
  (promise of the) decoded body, or is missing.
\<close>

record fetch_response =
  status :: int
  json_method :: "jsval option"

definition json :: "fetch_response option \<Rightarrow> js_error + jsval" where
  "json response =
     (case response of
        None \<Rightarrow> Inl (Error ''no response'')
      | Some r \<Rightarrow>
          (case json_method r of
             None \<Rightarrow> Inl (Error ''no response'')
           | Some body \<Rightarrow>
               if status r = 404 then Inl (Error ''no response'') else Inr body))"

section \<open>Component type registry\<close>

text \<open>
  \<^verbatim>\<open>
  export default {
    [NEW_CHART_ID]: CHART_TYPE,
    [NEW_COLUMN_ID]: COLUMN_TYPE,
    [NEW_DIVIDER_ID]: DIVIDER_TYPE,
    [NEW_HEADER_ID]: HEADER_TYPE,
    [NEW_MARKDOWN_ID]: MARKDOWN_TYPE,
    [NEW_ROW_ID]: ROW_TYPE,
    [NEW_TABS_ID]: TABS_TYPE,
    [NEW_TAB_ID]: TAB_TYPE,
  };
  \<close>
  The string constants come from two modules that are not part of this slice
  (\<open>./componentTypes\<close> and \<open>./constants\<close>); they are parameters of the registry.
\<close>

record componentTypes =
  CHART_TYPE :: string
  COLUMN_TYPE :: string
  DIVIDER_TYPE :: string
  HEADER_TYPE :: string
  MARKDOWN_TYPE :: string
  ROW_TYPE :: string
  TABS_TYPE :: string
  TAB_TYPE :: string

record newComponentIds =
  NEW_CHART_ID :: string
  NEW_COLUMN_ID :: string
  NEW_DIVIDER_ID :: string
  NEW_HEADER_ID :: string
  NEW_MARKDOWN_ID :: string
  NEW_ROW_ID :: string
  NEW_TABS_ID :: string
  NEW_TAB_ID :: string

text \<open>The entries of the object literal, in the order they are written.\<close>

definition registry_entries :: "newComponentIds \<Rightarrow> componentTypes \<Rightarrow> (string \<times> string) list" where
  "registry_entries ids tys =
     [(NEW_CHART_ID ids, CHART_TYPE tys),
      (NEW_COLUMN_ID ids, COLUMN_TYPE tys),
      (NEW_DIVIDER_ID ids, DIVIDER_TYPE tys),
      (NEW_HEADER_ID ids, HEADER_TYPE tys),
      (NEW_MARKDOWN_ID ids, MARKDOWN_TYPE tys),
      (NEW_ROW_ID ids, ROW_TYPE tys),
      (NEW_TABS_ID ids, TABS_TYPE tys),
      (NEW_TAB_ID ids, TAB_TYPE tys)]"

text \<open>
  The exported object as a map from its own keys: in an object literal a later entry
  replaces an earlier one with the same computed key, so the last entry for a key counts.
\<close>

definition registry :: "newComponentIds \<Rightarrow> componentTypes \<Rightarrow> (string \<rightharpoonup> string)" where
  "registry ids tys = map_of (rev (registry_entries ids tys))"

text \<open>
  Reading \<open>registry[id]\<close>. The registry is a plain object, so a read that finds no own
  property goes on to \<open>Object.prototype\<close>: for the names below it finds a member there
  (a function, or the prototype itself for \<open>__proto__\<close>), and for every other name it
  gives \<open>undefined\<close>. An own property hides an inherited one of the same name. A property
  read never throws on an object.
\<close>

definition Object_prototype_members :: "string list" where
  "Object_prototype_members =
     [''constructor'', ''hasOwnProperty'', ''isPrototypeOf'', ''propertyIsEnumerable'',
      ''toLocaleString'', ''toString'', ''valueOf'', ''__proto__'',
      ''__defineGetter__'', ''__defineSetter__'', ''__lookupGetter__'', ''__lookupSetter__'']"

datatype property_read =
    TypeTag string
  | InheritedMember string
  | Undefined

definition registry_lookup :: "newComponentIds \<Rightarrow> componentTypes \<Rightarrow> string \<Rightarrow> property_read" where
  "registry_lookup ids tys k =
     (case registry ids tys k of
        Some ty \<Rightarrow> TypeTag ty
      | None \<Rightarrow> if k \<in> set Object_prototype_members then InheritedMember k else Undefined)"

section \<open>Dashboard header\<close>

subsection \<open>Props, state and the calls on collaborators\<close>

record dashboard_info =
  dash_id :: jsval
  dash_edit_perm :: bool
  dash_save_perm :: bool

text \<open>The data props of the component. The function props are collaborators: a call on one
  of them is recorded as an \<open>effect\<close>.\<close>

record header_props =
  dashboardInfo :: dashboard_info
  dashboardTitle :: string
  charts :: "(string \<times> jsval) list"
  layout :: jsval
  filters :: jsval
  expandedSlices :: jsval
  css :: string
  isStarred :: bool
  editMode :: bool
  isV2Preview :: bool
  showBuilderPane :: bool
  hasUnsavedChanges :: bool
  maxUndoHistoryExceeded :: bool
  undoLength :: int
  redoLength :: int

datatype effect =
    MaxUndoHistoryToast
  | SetMaxUndoHistoryExceeded
  | FetchCharts "jsval list" bool
  | UpdateDashboardTitle string
  | OnChange
  | OnRedo
  | OnUndo
  | SetEditMode bool
  | OnSave jsval jsval string

text \<open>
  \<open>this.state\<close>. The constructor initialises \<open>hightlightRedo\<close> and never
  \<open>emphasizeRedo\<close>, which is therefore \<open>undefined\<close> (\<open>None\<close>) until \<open>handleCtrlY\<close>
  sets it.
\<close>

record header_state =
  didNotifyMaxUndoHistoryToast :: bool
  emphasizeUndo :: bool
  hightlightRedo :: bool
  showV2PreviewModal :: bool
  emphasizeRedo :: "bool option"

text \<open>The component instance: props, state and the two timer handles it keeps.\<close>

record header =
  props :: header_props
  state :: header_state
  ctrlYTimeout :: "nat option"
  ctrlZTimeout :: "nat option"

definition constructor :: "header_props \<Rightarrow> header" where
  "constructor p =
     \<lparr>props = p,
      state = \<lparr>didNotifyMaxUndoHistoryToast = False,
               emphasizeUndo = False,
               hightlightRedo = False,
               showV2PreviewModal = isV2Preview p,
               emphasizeRedo = None\<rparr>,
      ctrlYTimeout = None,
      ctrlZTimeout = None\<rparr>"

subsection \<open>Receiving props\<close>

text \<open>
  \<^verbatim>\<open>
  componentWillReceiveProps(nextProps) {
    if (
      UNDO_LIMIT - nextProps.undoLength <= 0 &&
      !this.state.didNotifyMaxUndoHistoryToast
    ) {
      this.setState(() => ({ didNotifyMaxUndoHistoryToast: true }));
      this.props.maxUndoHistoryToast();
    }
    if (
      nextProps.undoLength > UNDO_LIMIT &&
      !this.props.maxUndoHistoryExceeded
    ) {
      this.props.setMaxUndoHistoryExceeded();
    }
  }
  \<close>
  \<open>UNDO_LIMIT\<close> is imported from \<open>../util/constants\<close>, which is not part of this
  slice: it is a parameter. The state update is queued and applied when the method returns;
  the second test does not read the state.
\<close>

definition componentWillReceiveProps :: "int \<Rightarrow> header \<Rightarrow> header_props \<Rightarrow> header \<times> effect list" where
  "componentWillReceiveProps UNDO_LIMIT this nextProps =
     (let notify = (UNDO_LIMIT - undoLength nextProps \<le> 0
                    \<and> \<not> didNotifyMaxUndoHistoryToast (state this));
          exceed = (undoLength nextProps > UNDO_LIMIT
                    \<and> \<not> maxUndoHistoryExceeded (props this))
      in ((if notify
           then this\<lparr>state := (state this)\<lparr>didNotifyMaxUndoHistoryToast := True\<rparr>\<rparr>
           else this),
          (if notify then [MaxUndoHistoryToast] else [])
          @ (if exceed then [SetMaxUndoHistoryExceeded] else [])))"

text \<open>One update of the props: the framework calls \<open>componentWillReceiveProps\<close> with the
  old props still in place, then installs the new ones.\<close>

definition receiveProps :: "int \<Rightarrow> header \<Rightarrow> header_props \<Rightarrow> header \<times> effect list" where
  "receiveProps UNDO_LIMIT this nextProps =
     (case componentWillReceiveProps UNDO_LIMIT this nextProps of
        (this', es) \<Rightarrow> (this'\<lparr>props := nextProps\<rparr>, es))"

text \<open>A session of updates, from first to last; the calls made at each update are kept apart.\<close>

fun receive_all :: "int \<Rightarrow> header \<Rightarrow> header_props list \<Rightarrow> header \<times> effect list list" where
  "receive_all UNDO_LIMIT this [] = (this, [])"
| "receive_all UNDO_LIMIT this (np # nps) =
     (case receiveProps UNDO_LIMIT this np of
        (this1, es) \<Rightarrow>
          (case receive_all UNDO_LIMIT this1 nps of
             (this2, ess) \<Rightarrow> (this2, es # ess)))"

subsection \<open>Handlers without timers\<close>

text \<open>
  \<^verbatim>\<open>
  handleChangeText(nextText) {
    const { updateDashboardTitle, onChange } = this.props;
    if (nextText && this.props.dashboardTitle !== nextText) {
      updateDashboardTitle(nextText);
      onChange();
    }
  }
  toggleEditMode() {
    this.props.setEditMode(!this.props.editMode);
  }
  toggleShowV2PreviewModal() {
    this.setState({ showV2PreviewModal: !this.state.showV2PreviewModal });
  }
  forceRefresh() {
    return this.props.fetchCharts(Object.values(this.props.charts), true);
  }
  \<close>
\<close>

definition handleChangeText :: "header \<Rightarrow> string \<Rightarrow> effect list" where
  "handleChangeText this nextText =
     (if nextText \<noteq> [] \<and> dashboardTitle (props this) \<noteq> nextText
      then [UpdateDashboardTitle nextText, OnChange]
      else [])"

definition toggleEditMode :: "header \<Rightarrow> effect list" where
  "toggleEditMode this = [SetEditMode (\<not> editMode (props this))]"

definition toggleShowV2PreviewModal :: "header \<Rightarrow> header" where
  "toggleShowV2PreviewModal this =
     this\<lparr>state := (state this)\<lparr>showV2PreviewModal := \<not> showV2PreviewModal (state this)\<rparr>\<rparr>"

definition forceRefresh :: "header \<Rightarrow> effect list" where
  "forceRefresh this = [FetchCharts (map snd (charts (props this))) True]"

text \<open>
  \<^verbatim>\<open>
  overwriteDashboard() {
    const { dashboardTitle, layout: positions, expandedSlices, css, filters,
            dashboardInfo } = this.props;
    const data = {
      positions,
      expanded_slices: expandedSlices,
      css,
      dashboard_title: dashboardTitle,
      default_filters: JSON.stringify(filters),
    };
    this.props.onSave(data, dashboardInfo.id, SAVE_TYPE_OVERWRITE);
  }
  \<close>
  \<open>JSON.stringify\<close> is the platform's serialiser and \<open>SAVE_TYPE_OVERWRITE\<close> a constant
  of \<open>../util/constants\<close>: both are parameters.
\<close>

definition overwriteDashboard :: "(jsval \<Rightarrow> string) \<Rightarrow> string \<Rightarrow> header \<Rightarrow> effect list" where
  "overwriteDashboard JSON_stringify SAVE_TYPE_OVERWRITE this =
     (let data = JObj [(''positions'', layout (props this)),
                       (''expanded_slices'', expandedSlices (props this)),
                       (''css'', JStr (css (props this))),
                       (''dashboard_title'', JStr (dashboardTitle (props this))),
                       (''default_filters'', JStr (JSON_stringify (filters (props this))))]
      in [OnSave data (dash_id (dashboardInfo (props this))) SAVE_TYPE_OVERWRITE])"

subsection \<open>Timers of the browser\<close>

text \<open>
  The two keyboard handlers use \<open>setTimeout\<close> and \<open>clearTimeout\<close>. The browser keeps a
  clock (in milliseconds), the timers that are armed and the next handle to give out; handles
  are positive integers, each given out once. What a timer does when it fires is one of the
  two closures of the handlers.
\<close>

datatype timer_action = ResetEmphasizeRedo | ResetEmphasizeUndo

record timer =
  tid :: nat
  due :: nat
  action :: timer_action

record browser =
  now :: nat
  timers :: "timer list"
  next_id :: nat

definition initial_browser :: browser where
  "initial_browser = \<lparr>now = 0, timers = [], next_id = 1\<rparr>"

definition setTimeout :: "timer_action \<Rightarrow> nat \<Rightarrow> browser \<Rightarrow> nat \<times> browser" where
  "setTimeout act delay b =
     (next_id b,
      b\<lparr>timers := timers b @ [\<lparr>tid = next_id b, due = now b + delay, action = act\<rparr>],
        next_id := Suc (next_id b)\<rparr>)"

definition clearTimeout :: "nat \<Rightarrow> browser \<Rightarrow> browser" where
  "clearTimeout i b = b\<lparr>timers := filter (\<lambda>x. tid x \<noteq> i) (timers b)\<rparr>"

text \<open>
  \<^verbatim>\<open>
  handleCtrlY() {
    this.props.onRedo();
    this.setState({ emphasizeRedo: true }, () => {
      if (this.ctrlYTimeout) clearTimeout(this.ctrlYTimeout);
      this.ctrlYTimeout = setTimeout(() => {
        this.setState({ emphasizeRedo: false });
      }, 100);
    });
  }
  handleCtrlZ() {
    this.props.onUndo();
    this.setState({ emphasizeUndo: true }, () => {
      if (this.ctrlZTimeout) clearTimeout(this.ctrlZTimeout);
      this.ctrlZTimeout = setTimeout(() => {
        this.setState({ emphasizeUndo: false });
      }, 100);
    });
  }
  \<close>
  A handle is tested for truth before it is cleared: \<open>undefined\<close> and 0 are false.
\<close>

definition handleCtrlY :: "header \<times> browser \<Rightarrow> (header \<times> browser) \<times> effect list" where
  "handleCtrlY sys =
     (case sys of (this, b) \<Rightarrow>
        (let this1 = this\<lparr>state := (state this)\<lparr>emphasizeRedo := Some True\<rparr>\<rparr>;
             b1 = (case ctrlYTimeout this1 of
                     None \<Rightarrow> b
                   | Some i \<Rightarrow> if i \<noteq> 0 then clearTimeout i b else b)
         in (case setTimeout ResetEmphasizeRedo 100 b1 of
               (i, b2) \<Rightarrow> ((this1\<lparr>ctrlYTimeout := Some i\<rparr>, b2), [OnRedo]))))"

definition handleCtrlZ :: "header \<times> browser \<Rightarrow> (header \<times> browser) \<times> effect list" where
  "handleCtrlZ sys =
     (case sys of (this, b) \<Rightarrow>
        (let this1 = this\<lparr>state := (state this)\<lparr>emphasizeUndo := True\<rparr>\<rparr>;
             b1 = (case ctrlZTimeout this1 of
                     None \<Rightarrow> b
                   | Some i \<Rightarrow> if i \<noteq> 0 then clearTimeout i b else b)
         in (case setTimeout ResetEmphasizeUndo 100 b1 of
               (i, b2) \<Rightarrow> ((this1\<lparr>ctrlZTimeout := Some i\<rparr>, b2), [OnUndo]))))"

text \<open>A timer that fires runs its closure on the component.\<close>

definition fire :: "timer \<Rightarrow> header \<Rightarrow> header" where
  "fire x this =
     (case action x of
        ResetEmphasizeRedo \<Rightarrow> this\<lparr>state := (state this)\<lparr>emphasizeRedo := Some False\<rparr>\<rparr>
      | ResetEmphasizeUndo \<Rightarrow> this\<lparr>state := (state this)\<lparr>emphasizeUndo := False\<rparr>\<rparr>)"

text \<open>
  The clock moves to time \<open>t\<close> (never backwards): every armed timer whose time has come
  fires, earliest first, and is gone; the others stay armed. A timer is taken to be
  punctual: it has fired as soon as the clock shows its time.
\<close>

definition advance :: "nat \<Rightarrow> header \<times> browser \<Rightarrow> header \<times> browser" where
  "advance t sys =
     (case sys of (this, b) \<Rightarrow>
        (let n = max (now b) t
         in (fold fire (sort_key due (filter (\<lambda>x. due x \<le> n) (timers b))) this,
             b\<lparr>now := n, timers := filter (\<lambda>x. \<not> due x \<le> n) (timers b)\<rparr>)))"

text \<open>A keyboard event at a given time: the clock reaches that time, then the handler runs.\<close>

datatype key = CtrlY | CtrlZ

definition press :: "nat \<times> key \<Rightarrow> header \<times> browser \<Rightarrow> header \<times> browser" where
  "press ev sys =
     (case ev of (t, k) \<Rightarrow>
        (case k of
           CtrlY \<Rightarrow> fst (handleCtrlY (advance t sys))
         | CtrlZ \<Rightarrow> fst (handleCtrlZ (advance t sys))))"

definition run :: "(nat \<times> key) list \<Rightarrow> header \<times> browser \<Rightarrow> header \<times> browser" where
  "run evs sys = fold press evs sys"

text \<open>The time of the most recent press of a key in a list of events, if there is one.\<close>

definition last_press :: "key \<Rightarrow> (nat \<times> key) list \<Rightarrow> nat option" where
  "last_press k evs =
     (case filter (\<lambda>ev. snd ev = k) evs of
        [] \<Rightarrow> None
      | e # es \<Rightarrow> Some (fst (last (e # es))))"

text \<open>The timers armed for one of the two closures.\<close>

definition armed :: "timer_action \<Rightarrow> browser \<Rightarrow> timer list" where
  "armed act b = filter (\<lambda>x. action x = act) (timers b)"

subsection \<open>Notions for the proofs about timers\<close>

text \<open>
  The two steps of a handler on the browser: clearing the timer of the handle kept so far
  (when the handle is true), and arming a new timer of 100 ms.
\<close>

definition disarm :: "nat option \<Rightarrow> browser \<Rightarrow> browser" where
  "disarm handle b =
     (case handle of None \<Rightarrow> b | Some i \<Rightarrow> if i \<noteq> 0 then clearTimeout i b else b)"

definition arm :: "timer_action \<Rightarrow> browser \<Rightarrow> browser" where
  "arm act b = snd (setTimeout act 100 b)"

text \<open>The browser after its clock has reached \<open>n\<close>: the timers due by then are gone.\<close>

definition elapse :: "nat \<Rightarrow> browser \<Rightarrow> browser" where
  "elapse n b = b\<lparr>now := n, timers := filter (\<lambda>x. \<not> due x \<le> n) (timers b)\<rparr>"

text \<open>
  Handles are positive and every armed timer has a handle that was given out.
\<close>

definition browser_inv :: "browser \<Rightarrow> bool" where
  "browser_inv b = (0 < next_id b \<and> (\<forall>x \<in> set (timers b). tid x < next_id b))"

text \<open>
  The state of one pulse, given the time \<open>lastp\<close> of the most recent press of its key:
  before any press there is no handle, no emphasis and no timer for it; after a press at
  time \<open>s\<close> the kept handle belongs to this pulse only, the emphasis is on exactly while
  the clock is before \<open>s + 100\<close>, and exactly then one timer is armed for it, due at
  \<open>s + 100\<close>.
\<close>

definition pulse_inv :: "timer_action \<Rightarrow> nat option \<Rightarrow> bool \<Rightarrow> nat option \<Rightarrow> browser \<Rightarrow> bool" where
  "pulse_inv act handle emph lastp b =
     (case lastp of
        None \<Rightarrow> handle = None \<and> \<not> emph \<and> armed act b = []
      | Some s \<Rightarrow>
          s \<le> now b \<and>
          (case handle of
             None \<Rightarrow> False
           | Some i \<Rightarrow>
               0 < i \<and> i < next_id b
               \<and> (\<forall>x \<in> set (timers b). tid x = i \<longrightarrow> action x = act)
               \<and> emph = (now b < s + 100)
               \<and> armed act b =
                   (if now b < s + 100 then [\<lparr>tid = i, due = s + 100, action = act\<rparr>] else [])))"

definition sys_inv :: "nat option \<Rightarrow> nat option \<Rightarrow> header \<times> browser \<Rightarrow> bool" where
  "sys_inv lz ly sys =
     (case sys of (this, b) \<Rightarrow>
        browser_inv b
        \<and> pulse_inv ResetEmphasizeUndo (ctrlZTimeout this) (emphasizeUndo (state this)) lz b
        \<and> pulse_inv ResetEmphasizeRedo (ctrlYTimeout this)
             (emphasizeRedo (state this) = Some True) ly b)"

subsection \<open>Rendering\<close>

text \<open>
  What \<open>render\<close> returns, as far as the toolbar goes: the elements of the title block and,
  when it is rendered, of the button container. A button carries its label, the handler its
  \<open>onClick\<close> is bound to, its \<open>disabled\<close> flag (false when the attribute is not given)
  and its \<open>bsStyle\<close> (\<open>None\<close> for \<open>undefined\<close>).
\<close>

datatype handler =
    Props_onUndo
  | Props_onRedo
  | Props_toggleBuilderPane
  | This_overwriteDashboard
  | This_toggleEditMode

record button =
  label :: string
  onClick :: handler
  disabled :: bool
  bsStyle :: "string option"

datatype element =
    EditableTitle string bool
  | FaveStar jsval bool
  | V2PreviewBadge
  | V2PreviewModal
  | Button button
  | HeaderActionsDropdown
  | UndoRedoKeylisteners

record view =
  header_large :: "element list"
  button_container :: "element list option"

text \<open>
  \<open>isV2\<close> is \<open>window.featureToggles.dashboard_details.version === 'v2'\<close>, read from
  the page. A JSX child \<open>{c && (<X/>)}\<close> is the element when \<open>c\<close> holds and nothing
  otherwise. The children follow the order of the source (lines 244 to 390).
\<close>

definition render :: "bool \<Rightarrow> header \<Rightarrow> view" where
  "render isV2 this =
     (let p = props this;
          s = state this;
          isV2Preview' = (if isV2 then False else True);
          userCanEdit = dash_edit_perm (dashboardInfo p);
          userCanSaveAs = dash_save_perm (dashboardInfo p);
          popButton = (hasUnsavedChanges p \<or> isV2Preview p)
      in \<lparr>header_large =
            [EditableTitle (dashboardTitle p) (userCanEdit \<and> editMode p),
             FaveStar (dash_id (dashboardInfo p)) (isStarred p)]
            @ (if isV2Preview' then [V2PreviewBadge] else [])
            @ (if isV2Preview' \<and> showV2PreviewModal s then [V2PreviewModal] else []),
          button_container =
            (if userCanSaveAs then Some (
               (if editMode p
                then [Button \<lparr>label = ''Undo'', onClick = Props_onUndo,
                              disabled = (undoLength p < 1),
                              bsStyle = (if emphasizeUndo s then Some ''primary'' else None)\<rparr>]
                else [])
               @ (if editMode p
                  then [Button \<lparr>label = ''Redo'', onClick = Props_onRedo,
                                disabled = (redoLength p < 1),
                                bsStyle = (if emphasizeRedo s = Some True
                                           then Some ''primary'' else None)\<rparr>]
                  else [])
               @ (if editMode p
                  then [Button \<lparr>label = (if showBuilderPane p then ''Hide components''
                                         else ''Insert components''),
                                onClick = Props_toggleBuilderPane,
                                disabled = False, bsStyle = None\<rparr>]
                  else [])
               @ (if editMode p \<and> (hasUnsavedChanges p \<or> isV2Preview p)
                  then [Button \<lparr>label = (if isV2Preview' then ''Persist as Dashboard v2''
                                         else ''Save changes''),
                                onClick = This_overwriteDashboard,
                                disabled = False,
                                bsStyle = (if popButton then Some ''primary'' else None)\<rparr>]
                  else [])
               @ (if \<not> editMode p \<and> isV2Preview p
                  then [Button \<lparr>label = ''Edit'', onClick = This_toggleEditMode,
                                disabled = (\<not> userCanEdit),
                                bsStyle = (if popButton then Some ''primary'' else None)\<rparr>]
                  else [])
               @ (if \<not> editMode p \<and> \<not> isV2Preview p \<and> \<not> hasUnsavedChanges p
                  then [Button \<lparr>label = ''Edit dashboard'', onClick = This_toggleEditMode,
                                disabled = (\<not> userCanEdit),
                                bsStyle = (if popButton then Some ''primary'' else None)\<rparr>]
                  else [])
               @ (if editMode p \<and> \<not> isV2Preview p \<and> \<not> hasUnsavedChanges p
                  then [Button \<lparr>label = ''Switch to view mode'', onClick = This_toggleEditMode,
                                disabled = (\<not> userCanEdit), bsStyle = None\<rparr>]
                  else [])
               @ [HeaderActionsDropdown]
               @ (if editMode p then [UndoRedoKeylisteners] else []))
             else None)\<rparr>)"

text \<open>The buttons of a view, and those bound to a given handler.\<close>

definition buttons :: "view \<Rightarrow> button list" where
  "buttons v =
     (case button_container v of
        None \<Rightarrow> []
      | Some es \<Rightarrow> concat (map (\<lambda>e. case e of Button b \<Rightarrow> [b] | _ \<Rightarrow> []) es))"

definition buttons_for :: "handler \<Rightarrow> view \<Rightarrow> button list" where
  "buttons_for h v = filter (\<lambda>b. onClick b = h) (buttons v)"

subsection \<open>The store behind the props\<close>

text \<open>
  Modelled from the spec: the store that holds \<open>editMode\<close>, \<open>maxUndoHistoryExceeded\<close>
  and the history stack, and its reaction to the calls of the header, are not part of this
  slice. The spec describes the history as an ordered sequence of reversible edit operations
  of which the header sees the lengths \<open>undoLength\<close> and \<open>redoLength\<close>, the flag as
  sticky (set by \<open>setMaxUndoHistoryExceeded\<close>, never cleared), and \<open>setEditMode\<close> as
  setting the edit mode without touching the history.
\<close>

record 'op store =
  store_editMode :: bool
  store_maxUndoHistoryExceeded :: bool
  past :: "'op list"
  future :: "'op list"

text \<open>
  Modelled from the spec: what a call of the header does to the store. Undo moves the latest
  operation from the past to the future, redo moves it back; the other calls leave the
  store as it is.
\<close>

fun dispatch :: "effect \<Rightarrow> 'op store \<Rightarrow> 'op store" where
  "dispatch SetMaxUndoHistoryExceeded st = st\<lparr>store_maxUndoHistoryExceeded := True\<rparr>"
| "dispatch (SetEditMode b) st = st\<lparr>store_editMode := b\<rparr>"
| "dispatch OnUndo st =
     (case past st of
        [] \<Rightarrow> st
      | x # xs \<Rightarrow> st\<lparr>past := xs, future := x # future st\<rparr>)"
| "dispatch OnRedo st =
     (case future st of
        [] \<Rightarrow> st
      | x # xs \<Rightarrow> st\<lparr>past := x # past st, future := xs\<rparr>)"
| "dispatch MaxUndoHistoryToast st = st"
| "dispatch (FetchCharts cs force) st = st"
| "dispatch (UpdateDashboardTitle s) st = st"
| "dispatch OnChange st = st"
| "dispatch (OnSave d i m) st = st"

text \<open>
  Modelled from the spec: a session of updates against the store. Each update delivers
  new props whose \<open>maxUndoHistoryExceeded\<close> is the flag of the store; the calls the header
  makes in response reach the store before the next update.
\<close>

fun deliver_all :: "int \<Rightarrow> header \<times> 'op store \<Rightarrow> header_props list \<Rightarrow> header \<times> 'op store" where
  "deliver_all UNDO_LIMIT (this, st) [] = (this, st)"
| "deliver_all UNDO_LIMIT (this, st) (np # nps) =
     (case receiveProps UNDO_LIMIT this
             (np\<lparr>maxUndoHistoryExceeded := store_maxUndoHistoryExceeded st\<rparr>) of
        (this1, es) \<Rightarrow> deliver_all UNDO_LIMIT (this1, fold dispatch es st) nps)"

text \<open>Modelled from the spec: the session starts with the store and the props in agreement.\<close>

definition initial_session :: "header_props \<Rightarrow> 'op list \<Rightarrow> 'op list \<Rightarrow> header \<times> 'op store" where
  "initial_session p ps fs =
     (constructor p,
      \<lparr>store_editMode = editMode p,
       store_maxUndoHistoryExceeded = maxUndoHistoryExceeded p,
       past = ps, future = fs\<rparr>)"

text \<open>The props of the header never show the flag when the store does not have it.\<close>

definition flag_agrees :: "header \<times> 'op store \<Rightarrow> bool" where
  "flag_agrees s =
     (maxUndoHistoryExceeded (props (fst s)) \<longrightarrow> store_maxUndoHistoryExceeded (snd s))"

section \<open>Example inputs\<close>

text \<open>Concrete inputs on which the properties below are evaluated.\<close>

definition example_ids :: newComponentIds where
  "example_ids =
     \<lparr>NEW_CHART_ID = ''NEW_CHART_ID'', NEW_COLUMN_ID = ''NEW_COLUMN_ID'',
      NEW_DIVIDER_ID = ''NEW_DIVIDER_ID'', NEW_HEADER_ID = ''NEW_HEADER_ID'',
      NEW_MARKDOWN_ID = ''NEW_MARKDOWN_ID'', NEW_ROW_ID = ''NEW_ROW_ID'',
      NEW_TABS_ID = ''NEW_TABS_ID'', NEW_TAB_ID = ''NEW_TAB_ID''\<rparr>"

definition example_types :: componentTypes where
  "example_types =
     \<lparr>CHART_TYPE = ''CHART'', COLUMN_TYPE = ''COLUMN'', DIVIDER_TYPE = ''DIVIDER'',
      HEADER_TYPE = ''HEADER'', MARKDOWN_TYPE = ''MARKDOWN'', ROW_TYPE = ''ROW'',
      TABS_TYPE = ''TABS'', TAB_TYPE = ''TAB''\<rparr>"

text \<open>A dashboard in edit mode with unsaved changes, whose user may save but not edit.\<close>

definition example_props :: header_props where
  "example_props =
     \<lparr>dashboardInfo = \<lparr>dash_id = JNum 7, dash_edit_perm = False, dash_save_perm = True\<rparr>,
      dashboardTitle = ''Sales'',
      charts = [],
      layout = JObj [(''ROOT_ID'', JObj [(''type'', JStr ''ROOT'')])],
      filters = JObj [],
      expandedSlices = JObj [],
      css = ''.dashboard { margin: 0 }'',
      isStarred = False,
      editMode = True,
      isV2Preview = False,
      showBuilderPane = False,
      hasUnsavedChanges = True,
      maxUndoHistoryExceeded = False,
      undoLength = 0,
      redoLength = 2\<rparr>"

text \<open>The same dashboard in view mode, with five steps of history.\<close>

definition view_props :: header_props where
  "view_props = example_props\<lparr>editMode := False, undoLength := 5\<rparr>"

text \<open>Two presses of Ctrl-Z 60 ms apart, then one of Ctrl-Y.\<close>

definition example_presses :: "(nat \<times> key) list" where
  "example_presses = [(0, CtrlZ), (60, CtrlZ), (70, CtrlY)]"

section \<open>Properties of the response utilities\<close>

text \<open>
  C4. Given an object as response and a callback, \<open>callbackHandler\<close> calls the callback
  with \<open>true\<close> and the \<open>data\<close> property when the status is 200, and with \<open>false\<close> and the
  \<open>message\<close> property for every other status. Status 200 with payload \<open>{a: 1}\<close> gives
  \<open>(true, {a: 1})\<close>; status 500 with message \<open>err\<close> gives \<open>(false, err)\<close>.
\<close>

theorem callbackHandler_classifies:
  "callbackHandler (JObj fs) (Some cb) =
     Inr (Some (if field fs ''status'' = JNum 200
                then cb (JBool True) (field fs ''data'')
                else cb (JBool False) (field fs ''message'')))
   \<and> callbackHandler (JObj [(''status'', JNum 200), (''data'', JObj [(''a'', JNum 1)])])
         (Some Pair) = Inr (Some (JBool True, JObj [(''a'', JNum 1)]))
   \<and> callbackHandler (JObj [(''status'', JNum 500), (''message'', JStr ''err'')])
         (Some Pair) = Inr (Some (JBool False, JStr ''err''))"
  by (simp add: callbackHandler_def field_def)

theorem callbackHandler_classifies_witness:
  "callbackHandler (JObj [(''status'', JNum 404), (''message'', JStr ''gone''), (''data'', JNull)])
     (Some (\<lambda>ok payload. (ok, payload))) = Inr (Some (JBool False, JStr ''gone''))"
  using callbackHandler_classifies
    [of "[(''status'', JNum 404), (''message'', JStr ''gone''), (''data'', JNull)]"
        "\<lambda>ok payload. (ok, payload)"]
  by (simp add: field_def)

text \<open>
  C5. \<open>json\<close> fails, with the one generic error, exactly when the response is absent, has
  no \<open>json\<close> method or has status 404; every failure is that error; in every other case it
  returns the decoded body. A response with status 404 fails whether or not it has a body.
\<close>

theorem json_fails_exactly:
  "((json response = Inl (Error ''no response'')) =
     (case response of
        None \<Rightarrow> True
      | Some r \<Rightarrow> json_method r = None \<or> status r = 404))
   \<and> (\<forall>e. json response = Inl e \<longrightarrow> e = Error ''no response'')
   \<and> (\<forall>r body. response = Some r \<and> json_method r = Some body \<and> status r \<noteq> 404
         \<longrightarrow> json response = Inr body)
   \<and> json (Some \<lparr>status = 404, json_method = m\<rparr>) = Inl (Error ''no response'')"
  by (auto simp: json_def split: option.splits)

theorem json_fails_exactly_witness:
  "json (Some \<lparr>status = 200, json_method = Some (JObj [(''a'', JNum 1)])\<rparr>)
     = Inr (JObj [(''a'', JNum 1)])
   \<and> json (Some \<lparr>status = 404, json_method = Some (JObj [(''a'', JNum 1)])\<rparr>)
     = Inl (Error ''no response'')"
  using json_fails_exactly
    [of "Some \<lparr>status = 200, json_method = Some (JObj [(''a'', JNum 1)])\<rparr>"
        "Some (JObj [(''a'', JNum 1)])"]
  by simp

text \<open>
  C10. A response that is present and has a \<open>json\<close> method is rejected for status 404
  and for no other status: with any other status, 500 for one, \<open>json\<close> returns the body.
\<close>

theorem json_rejects_only_404:
  "json_method r = Some body \<Longrightarrow>
     json (Some r) = (if status r = 404 then Inl (Error ''no response'') else Inr body)"
  by (simp add: json_def)

theorem json_rejects_only_404_witness:
  "json (Some \<lparr>status = 500, json_method = Some (JStr ''busy'')\<rparr>) = Inr (JStr ''busy'')"
  using json_rejects_only_404
    [of "\<lparr>status = 500, json_method = Some (JStr ''busy'')\<rparr>" "JStr ''busy''"]
  by simp

section \<open>Properties of the component type registry\<close>

lemma registry_unregistered:
  assumes "k \<notin> set (map fst (registry_entries ids tys))"
  shows "registry ids tys k = None"
proof -
  from assms have "k \<notin> fst ` set (rev (registry_entries ids tys))" by simp
  then show ?thesis
    by (simp add: registry_def map_of_eq_None_iff)
qed

lemma registry_registered:
  assumes "distinct (map fst (registry_entries ids tys))"
    and "(k, ty) \<in> set (registry_entries ids tys)"
  shows "registry ids tys k = Some ty"
proof -
  from assms(1) have "distinct (map fst (rev (registry_entries ids tys)))"
    by (simp add: rev_map [symmetric])
  moreover from assms(2) have "(k, ty) \<in> set (rev (registry_entries ids tys))" by simp
  ultimately have "map_of (rev (registry_entries ids tys)) k = Some ty"
    by (rule map_of_is_SomeI)
  then show ?thesis by (simp add: registry_def)
qed

lemma example_entries:
  "registry_entries example_ids example_types =
     [(''NEW_CHART_ID'', ''CHART''), (''NEW_COLUMN_ID'', ''COLUMN''),
      (''NEW_DIVIDER_ID'', ''DIVIDER''), (''NEW_HEADER_ID'', ''HEADER''),
      (''NEW_MARKDOWN_ID'', ''MARKDOWN''), (''NEW_ROW_ID'', ''ROW''),
      (''NEW_TABS_ID'', ''TABS''), (''NEW_TAB_ID'', ''TAB'')]"
  by (simp add: registry_entries_def example_ids_def example_types_def)

lemma example_id_values:
  "NEW_CHART_ID example_ids = ''NEW_CHART_ID''"
  "NEW_COLUMN_ID example_ids = ''NEW_COLUMN_ID''"
  "NEW_DIVIDER_ID example_ids = ''NEW_DIVIDER_ID''"
  "NEW_HEADER_ID example_ids = ''NEW_HEADER_ID''"
  "NEW_MARKDOWN_ID example_ids = ''NEW_MARKDOWN_ID''"
  "NEW_ROW_ID example_ids = ''NEW_ROW_ID''"
  "NEW_TABS_ID example_ids = ''NEW_TABS_ID''"
  "NEW_TAB_ID example_ids = ''NEW_TAB_ID''"
  by (simp_all add: example_ids_def)

lemma example_type_values:
  "CHART_TYPE example_types = ''CHART''"
  "COLUMN_TYPE example_types = ''COLUMN''"
  "DIVIDER_TYPE example_types = ''DIVIDER''"
  "HEADER_TYPE example_types = ''HEADER''"
  "MARKDOWN_TYPE example_types = ''MARKDOWN''"
  "ROW_TYPE example_types = ''ROW''"
  "TABS_TYPE example_types = ''TABS''"
  "TAB_TYPE example_types = ''TAB''"
  by (simp_all add: example_types_def)

text \<open>
  C7, as stated, says that every id that is not in the registry reads as the marker of an
  unknown id. The id \<open>constructor\<close> is not a key of the registry, and reading it gives the
  member every object inherits under that name, not \<open>undefined\<close>.
\<close>

theorem registry_lookup_counterexample:
  "''constructor'' \<notin> set (map fst (registry_entries example_ids example_types))
   \<and> registry_lookup example_ids example_types ''constructor'' = InheritedMember ''constructor''
   \<and> registry_lookup example_ids example_types ''constructor'' \<noteq> Undefined"
  by (simp add: registry_lookup_def registry_def example_entries Object_prototype_members_def)

text \<open>
  C7, amended. Looking up an id never fails. An id that is not a key of the registry reads
  as \<open>undefined\<close>, the marker of an unknown id, unless it is the name of a member inherited
  from \<open>Object.prototype\<close>, in which case it reads as that member. When the eight
  placeholder ids are distinct each of them reads as its own type tag: the chart id as the
  chart type, the column id as the column type, and so on for divider, header, markdown, row,
  tabs and tab; whether or not they are distinct, the id written last (the tab id) reads as
  the tab type.
\<close>

theorem registry_lookup_total:
  "(k \<notin> set (map fst (registry_entries ids tys)) \<longrightarrow>
      registry_lookup ids tys k =
        (if k \<in> set Object_prototype_members then InheritedMember k else Undefined))
   \<and> (distinct (map fst (registry_entries ids tys)) \<longrightarrow>
        registry_lookup ids tys (NEW_CHART_ID ids) = TypeTag (CHART_TYPE tys)
        \<and> registry_lookup ids tys (NEW_COLUMN_ID ids) = TypeTag (COLUMN_TYPE tys)
        \<and> registry_lookup ids tys (NEW_DIVIDER_ID ids) = TypeTag (DIVIDER_TYPE tys)
        \<and> registry_lookup ids tys (NEW_HEADER_ID ids) = TypeTag (HEADER_TYPE tys)
        \<and> registry_lookup ids tys (NEW_MARKDOWN_ID ids) = TypeTag (MARKDOWN_TYPE tys)
        \<and> registry_lookup ids tys (NEW_ROW_ID ids) = TypeTag (ROW_TYPE tys)
        \<and> registry_lookup ids tys (NEW_TABS_ID ids) = TypeTag (TABS_TYPE tys)
        \<and> registry_lookup ids tys (NEW_TAB_ID ids) = TypeTag (TAB_TYPE tys))
   \<and> registry_lookup ids tys (NEW_TAB_ID ids) = TypeTag (TAB_TYPE tys)"
proof (intro conjI impI)
  assume "k \<notin> set (map fst (registry_entries ids tys))"
  then have "registry ids tys k = None" by (rule registry_unregistered)
  then show "registry_lookup ids tys k =
      (if k \<in> set Object_prototype_members then InheritedMember k else Undefined)"
    by (simp add: registry_lookup_def)
next
  assume d: "distinct (map fst (registry_entries ids tys))"
  have r: "registry_lookup ids tys i = TypeTag ty"
    if "(i, ty) \<in> set (registry_entries ids tys)" for i ty
    using registry_registered [OF d that] by (simp add: registry_lookup_def)
  show "registry_lookup ids tys (NEW_CHART_ID ids) = TypeTag (CHART_TYPE tys)"
    by (rule r) (simp add: registry_entries_def)
  show "registry_lookup ids tys (NEW_COLUMN_ID ids) = TypeTag (COLUMN_TYPE tys)"
    by (rule r) (simp add: registry_entries_def)
  show "registry_lookup ids tys (NEW_DIVIDER_ID ids) = TypeTag (DIVIDER_TYPE tys)"
    by (rule r) (simp add: registry_entries_def)
  show "registry_lookup ids tys (NEW_HEADER_ID ids) = TypeTag (HEADER_TYPE tys)"
    by (rule r) (simp add: registry_entries_def)
  show "registry_lookup ids tys (NEW_MARKDOWN_ID ids) = TypeTag (MARKDOWN_TYPE tys)"
    by (rule r) (simp add: registry_entries_def)
  show "registry_lookup ids tys (NEW_ROW_ID ids) = TypeTag (ROW_TYPE tys)"
    by (rule r) (simp add: registry_entries_def)
  show "registry_lookup ids tys (NEW_TABS_ID ids) = TypeTag (TABS_TYPE tys)"
    by (rule r) (simp add: registry_entries_def)
  show "registry_lookup ids tys (NEW_TAB_ID ids) = TypeTag (TAB_TYPE tys)"
    by (rule r) (simp add: registry_entries_def)
next
  show "registry_lookup ids tys (NEW_TAB_ID ids) = TypeTag (TAB_TYPE tys)"
    by (simp add: registry_lookup_def registry_def registry_entries_def)
qed

theorem registry_lookup_total_witness:
  "registry_lookup example_ids example_types ''CHART-x7Qz'' = Undefined
   \<and> registry_lookup example_ids example_types ''toString'' = InheritedMember ''toString''
   \<and> registry_lookup example_ids example_types ''NEW_CHART_ID'' = TypeTag ''CHART''
   \<and> registry_lookup example_ids example_types ''NEW_COLUMN_ID'' = TypeTag ''COLUMN''
   \<and> registry_lookup example_ids example_types ''NEW_DIVIDER_ID'' = TypeTag ''DIVIDER''
   \<and> registry_lookup example_ids example_types ''NEW_HEADER_ID'' = TypeTag ''HEADER''
   \<and> registry_lookup example_ids example_types ''NEW_MARKDOWN_ID'' = TypeTag ''MARKDOWN''
   \<and> registry_lookup example_ids example_types ''NEW_ROW_ID'' = TypeTag ''ROW''
   \<and> registry_lookup example_ids example_types ''NEW_TABS_ID'' = TypeTag ''TABS''
   \<and> registry_lookup example_ids example_types ''NEW_TAB_ID'' = TypeTag ''TAB''"
proof -
  have d: "distinct (map fst (registry_entries example_ids example_types))"
    by (simp add: example_entries)
  have u: "''CHART-x7Qz'' \<notin> set (map fst (registry_entries example_ids example_types))"
    "''CHART-x7Qz'' \<notin> set Object_prototype_members"
    by (simp_all add: example_entries Object_prototype_members_def)
  have t: "''toString'' \<notin> set (map fst (registry_entries example_ids example_types))"
    "''toString'' \<in> set Object_prototype_members"
    by (simp_all add: example_entries Object_prototype_members_def)
  from registry_lookup_total [of "''CHART-x7Qz''" example_ids example_types]
    registry_lookup_total [of "''toString''" example_ids example_types] d u t
  show ?thesis
    by (simp add: example_id_values example_type_values)
qed

section \<open>Properties of the dashboard header\<close>

subsection \<open>The history limit\<close>

lemma receiveProps_toast:
  "snd (receiveProps L this np) =
     (if L - undoLength np \<le> 0 \<and> \<not> didNotifyMaxUndoHistoryToast (state this)
      then [MaxUndoHistoryToast] else [])
     @ (if undoLength np > L \<and> \<not> maxUndoHistoryExceeded (props this)
        then [SetMaxUndoHistoryExceeded] else [])"
  by (simp add: receiveProps_def componentWillReceiveProps_def Let_def)

lemma receiveProps_didNotify:
  "didNotifyMaxUndoHistoryToast (state (fst (receiveProps L this np))) =
     (didNotifyMaxUndoHistoryToast (state this) \<or> L - undoLength np \<le> 0)"
  by (auto simp: receiveProps_def componentWillReceiveProps_def Let_def)

lemma receiveProps_props: "props (fst (receiveProps L this np)) = np"
  by (simp add: receiveProps_def componentWillReceiveProps_def Let_def)

lemma receive_all_Cons:
  "snd (receive_all L this (np # nps)) =
     snd (receiveProps L this np) # snd (receive_all L (fst (receiveProps L this np)) nps)"
  by (simp split: prod.splits)

lemma receive_all_length: "length (snd (receive_all L this nps)) = length nps"
  by (induction nps arbitrary: this) (simp_all add: receive_all_Cons del: receive_all.simps(2))

lemma toast_at_step:
  "i < length nps \<Longrightarrow>
     (MaxUndoHistoryToast \<in> set (snd (receive_all L this nps) ! i)) =
     (\<not> didNotifyMaxUndoHistoryToast (state this) \<and> L - undoLength (nps ! i) \<le> 0
      \<and> (\<forall>j<i. \<not> L - undoLength (nps ! j) \<le> 0))"
proof (induction nps arbitrary: this i)
  case Nil
  then show ?case by simp
next
  case (Cons np nps)
  show ?case
  proof (cases i)
    case 0
    then show ?thesis
      by (auto simp add: receive_all_Cons receiveProps_toast simp del: receive_all.simps(2))
  next
    case (Suc k)
    with Cons.prems have k: "k < length nps" by simp
    have "(\<forall>j<Suc k. \<not> L - undoLength ((np # nps) ! j) \<le> 0) =
          (\<not> L - undoLength np \<le> 0 \<and> (\<forall>j<k. \<not> L - undoLength (nps ! j) \<le> 0))"
      by (auto simp: less_Suc_eq_0_disj)
    with Suc Cons.IH [OF k, of "fst (receiveProps L this np)"] show ?thesis
      by (auto simp add: receive_all_Cons receiveProps_didNotify simp del: receive_all.simps(2))
  qed
qed

lemma toast_count:
  "count_list (concat (snd (receive_all L this nps))) MaxUndoHistoryToast =
     (if \<not> didNotifyMaxUndoHistoryToast (state this)
         \<and> (\<exists>np \<in> set nps. L - undoLength np \<le> 0) then 1 else 0)"
proof (induction nps arbitrary: this)
  case Nil
  then show ?case by simp
next
  case (Cons np nps)
  show ?case
    by (simp add: receive_all_Cons receiveProps_toast receiveProps_didNotify Cons.IH
        del: receive_all.simps(2))
qed

text \<open>
  C1. In a session of updates of the props, starting from the constructor, the history-limit
  toast is called at most once; it is called at an update exactly when
  \<open>UNDO_LIMIT - undoLength \<le> 0\<close> holds there and held at no earlier update; and when the
  updates carry the lengths \<open>0, 1, \<dots>, UNDO_LIMIT + 1\<close> it is called exactly once.
\<close>

theorem toast_fires_once:
  "count_list (concat (snd (receive_all L (constructor p) nps))) MaxUndoHistoryToast \<le> 1
   \<and> (\<forall>i<length nps.
         (MaxUndoHistoryToast \<in> set (snd (receive_all L (constructor p) nps) ! i)) =
         (L - undoLength (nps ! i) \<le> 0 \<and> (\<forall>j<i. \<not> L - undoLength (nps ! j) \<le> 0)))
   \<and> (0 \<le> L \<and> map undoLength nps = [0..L + 1] \<longrightarrow>
         count_list (concat (snd (receive_all L (constructor p) nps))) MaxUndoHistoryToast = 1)"
proof (intro conjI allI impI)
  have c: "\<not> didNotifyMaxUndoHistoryToast (state (constructor p))"
    by (simp add: constructor_def)
  show "count_list (concat (snd (receive_all L (constructor p) nps))) MaxUndoHistoryToast \<le> 1"
    by (simp add: toast_count)
  show "(MaxUndoHistoryToast \<in> set (snd (receive_all L (constructor p) nps) ! i)) =
         (L - undoLength (nps ! i) \<le> 0 \<and> (\<forall>j<i. \<not> L - undoLength (nps ! j) \<le> 0))"
    if "i < length nps" for i
    using toast_at_step [OF that, of L "constructor p"] c by simp
  show "count_list (concat (snd (receive_all L (constructor p) nps))) MaxUndoHistoryToast = 1"
    if h: "0 \<le> L \<and> map undoLength nps = [0..L + 1]"
  proof -
    from h have "L \<in> set (map undoLength nps)" by simp
    then obtain np where "np \<in> set nps" "undoLength np = L" by auto
    then have "\<exists>np \<in> set nps. L - undoLength np \<le> 0" by auto
    with c show ?thesis by (simp add: toast_count)
  qed
qed

lemma upto2: "[0..2] = [0, 1, 2::int]"
  by code_simp

theorem toast_fires_once_witness:
  "count_list (concat (snd (receive_all 1 (constructor example_props)
       (map (\<lambda>u. example_props\<lparr>undoLength := u\<rparr>) [0, 1, 2])))) MaxUndoHistoryToast = 1
   \<and> MaxUndoHistoryToast \<in> set (snd (receive_all 1 (constructor example_props)
       (map (\<lambda>u. example_props\<lparr>undoLength := u\<rparr>) [0, 1, 2])) ! 1)"
proof -
  let ?nps = "map (\<lambda>u. example_props\<lparr>undoLength := u\<rparr>) [0, 1, 2]"
  have m: "(0::int) \<le> 1 \<and> map undoLength ?nps = [0..1 + 1]"
    by (simp add: upto2)
  have l: "1 < length ?nps" by simp
  have n: "1 - undoLength (?nps ! 1) \<le> 0 \<and> (\<forall>j<1. \<not> 1 - undoLength (?nps ! j) \<le> 0)"
    by simp
  from toast_fires_once [of 1 example_props ?nps] m l n show ?thesis
    by blast
qed

lemma dispatch_keeps_flag:
  "store_maxUndoHistoryExceeded st \<Longrightarrow> store_maxUndoHistoryExceeded (dispatch e st)"
  by (cases e) (simp_all split: list.splits)

lemma fold_dispatch_keeps_flag:
  "store_maxUndoHistoryExceeded st \<Longrightarrow> store_maxUndoHistoryExceeded (fold dispatch es st)"
  by (induction es arbitrary: st) (simp_all add: dispatch_keeps_flag)

lemma fold_dispatch_sets_flag:
  "SetMaxUndoHistoryExceeded \<in> set es \<Longrightarrow> store_maxUndoHistoryExceeded (fold dispatch es st)"
proof (induction es arbitrary: st)
  case Nil
  then show ?case by simp
next
  case (Cons e es)
  show ?case
  proof (cases "e = SetMaxUndoHistoryExceeded")
    case True
    then show ?thesis by (simp add: fold_dispatch_keeps_flag)
  next
    case False
    with Cons show ?thesis by simp
  qed
qed

lemma deliver_all_Cons:
  "deliver_all L (this, st) (np # nps) =
     deliver_all L
       (fst (receiveProps L this (np\<lparr>maxUndoHistoryExceeded := store_maxUndoHistoryExceeded st\<rparr>)),
        fold dispatch
          (snd (receiveProps L this (np\<lparr>maxUndoHistoryExceeded := store_maxUndoHistoryExceeded st\<rparr>)))
          st) nps"
  by (simp split: prod.splits)

lemma deliver_sticky:
  "store_maxUndoHistoryExceeded st \<Longrightarrow>
     store_maxUndoHistoryExceeded (snd (deliver_all L (this, st) nps))"
proof (induction nps arbitrary: this st)
  case Nil
  then show ?case by simp
next
  case (Cons np nps)
  then show ?case
    by (simp only: deliver_all_Cons fold_dispatch_keeps_flag)
qed

lemma deliver_agrees:
  "flag_agrees (this, st) \<Longrightarrow> flag_agrees (deliver_all L (this, st) nps)"
proof (induction nps arbitrary: this st)
  case Nil
  then show ?case by simp
next
  case (Cons np nps)
  let ?np = "np\<lparr>maxUndoHistoryExceeded := store_maxUndoHistoryExceeded st\<rparr>"
  have "flag_agrees (fst (receiveProps L this ?np), fold dispatch (snd (receiveProps L this ?np)) st)"
    by (simp add: flag_agrees_def receiveProps_props fold_dispatch_keeps_flag)
  then show ?case
    by (simp only: deliver_all_Cons Cons.IH)
qed

lemma deliver_all_append:
  "deliver_all L s (xs @ ys) = deliver_all L (deliver_all L s xs) ys"
proof (induction xs arbitrary: s)
  case Nil
  show ?case by (cases s) simp
next
  case (Cons x xs)
  obtain this st where s: "s = (this, st)" by (cases s)
  show ?case unfolding s by (simp only: append_Cons deliver_all_Cons Cons.IH)
qed

lemma deliver_exceeding:
  assumes "flag_agrees (this, st)" and "L < undoLength np"
  shows "store_maxUndoHistoryExceeded (snd (deliver_all L (this, st) (np # nps)))"
proof -
  let ?np = "np\<lparr>maxUndoHistoryExceeded := store_maxUndoHistoryExceeded st\<rparr>"
  have "store_maxUndoHistoryExceeded (fold dispatch (snd (receiveProps L this ?np)) st)"
  proof (cases "maxUndoHistoryExceeded (props this)")
    case True
    with assms(1) have "store_maxUndoHistoryExceeded st" by (simp add: flag_agrees_def)
    then show ?thesis by (rule fold_dispatch_keeps_flag)
  next
    case False
    with assms(2) have "SetMaxUndoHistoryExceeded \<in> set (snd (receiveProps L this ?np))"
      by (simp add: receiveProps_toast)
    then show ?thesis by (rule fold_dispatch_sets_flag)
  qed
  then show ?thesis
    by (simp only: deliver_all_Cons deliver_sticky)
qed

text \<open>
  C2. Once an update with \<open>undoLength > UNDO_LIMIT\<close> has been delivered, the flag
  \<open>maxUndoHistoryExceeded\<close> of the store is set, whatever updates came before and whatever
  updates follow, also with lengths at or below the limit. A flag that is set stays set
  through every session of updates, and no call the header can make clears it.
\<close>

theorem maxUndoHistoryExceeded_sticky:
  "(L < undoLength np \<longrightarrow>
      store_maxUndoHistoryExceeded
        (snd (deliver_all L (initial_session p ps fs) (before @ np # after))))
   \<and> (store_maxUndoHistoryExceeded st \<longrightarrow>
        store_maxUndoHistoryExceeded (snd (deliver_all L (this, st) nps)))
   \<and> (store_maxUndoHistoryExceeded st \<longrightarrow> store_maxUndoHistoryExceeded (dispatch e st))"
proof (intro conjI impI)
  assume h: "L < undoLength np"
  have "flag_agrees (initial_session p ps fs :: header \<times> 'a store)"
    by (simp add: flag_agrees_def initial_session_def constructor_def)
  then have a: "flag_agrees (deliver_all L (constructor p, snd (initial_session p ps fs :: header \<times> 'a store)) before)"
    using deliver_agrees [of "constructor p" "snd (initial_session p ps fs)" L before]
    by (simp add: initial_session_def)
  obtain this1 and st1 :: "'a store"
    where s1: "deliver_all L (initial_session p ps fs) before = (this1, st1)"
    by (cases "deliver_all L (initial_session p ps fs :: header \<times> 'a store) before")
  with a have "flag_agrees (this1, st1)" by (simp add: initial_session_def)
  from deliver_exceeding [OF this h]
  show "store_maxUndoHistoryExceeded
        (snd (deliver_all L (initial_session p ps fs) (before @ np # after)))"
    by (simp add: deliver_all_append s1 del: deliver_all.simps)
next
  assume "store_maxUndoHistoryExceeded st"
  then show "store_maxUndoHistoryExceeded (snd (deliver_all L (this, st) nps))"
    by (rule deliver_sticky)
next
  assume "store_maxUndoHistoryExceeded st"
  then show "store_maxUndoHistoryExceeded (dispatch e st)"
    by (rule dispatch_keeps_flag)
qed

theorem maxUndoHistoryExceeded_sticky_witness:
  "store_maxUndoHistoryExceeded
     (snd (deliver_all 3 (initial_session example_props [] ([] :: nat list))
        ([example_props\<lparr>undoLength := 2\<rparr>] @ example_props\<lparr>undoLength := 4\<rparr>
           # [example_props\<lparr>undoLength := 1\<rparr>, example_props\<lparr>undoLength := 0\<rparr>])))"
proof -
  have h: "3 < undoLength (example_props\<lparr>undoLength := 4\<rparr>)"
    by simp
  from maxUndoHistoryExceeded_sticky
    [where L = 3 and np = "example_props\<lparr>undoLength := 4\<rparr>" and p = example_props
       and ps = "[]" and fs = "[] :: nat list"
       and before = "[example_props\<lparr>undoLength := 2\<rparr>]"
       and after = "[example_props\<lparr>undoLength := 1\<rparr>, example_props\<lparr>undoLength := 0\<rparr>]",
     THEN conjunct1] h
  show ?thesis by blast
qed

subsection \<open>The emphasis pulse\<close>

lemma armed_elapse: "armed act (elapse n b) = filter (\<lambda>x. \<not> due x \<le> n) (armed act b)"
  by (auto simp: armed_def elapse_def intro: filter_cong)

lemma fired_iff:
  "(\<forall>x \<in> set (timers b). due x \<le> n \<longrightarrow> action x \<noteq> act) =
   (\<forall>x \<in> set (armed act b). \<not> due x \<le> n)"
  by (auto simp: armed_def)

lemma pulse_inv_elapse:
  assumes "pulse_inv act handle emph lastp b" and "now b \<le> n"
  shows "pulse_inv act handle
           (emph \<and> (\<forall>x \<in> set (timers b). due x \<le> n \<longrightarrow> action x \<noteq> act)) lastp (elapse n b)"
proof (cases lastp)
  case None
  with assms show ?thesis
    by (simp add: pulse_inv_def armed_elapse fired_iff)
next
  case (Some s)
  with assms obtain i where i: "handle = Some i"
    by (cases handle) (simp_all add: pulse_inv_def)
  have e: "now (elapse n b) = n" "next_id (elapse n b) = next_id b"
    "set (timers (elapse n b)) \<subseteq> set (timers b)"
    by (auto simp: elapse_def)
  from assms Some i have f: "s \<le> now b" "0 < i" "i < next_id b"
    "\<forall>x \<in> set (timers b). tid x = i \<longrightarrow> action x = act"
    "emph = (now b < s + 100)"
    "armed act b = (if now b < s + 100 then [\<lparr>tid = i, due = s + 100, action = act\<rparr>] else [])"
    by (simp_all add: pulse_inv_def)
  show ?thesis
  proof (cases "now b < s + 100")
    case True
    with f e assms(2) Some i show ?thesis
      by (auto simp: pulse_inv_def armed_elapse fired_iff)
  next
    case False
    with f e assms(2) Some i show ?thesis
      by (auto simp: pulse_inv_def armed_elapse fired_iff)
  qed
qed

lemma browser_inv_elapse: "browser_inv b \<Longrightarrow> browser_inv (elapse n b)"
  by (simp add: browser_inv_def elapse_def)

lemma fold_fire_undo:
  "emphasizeUndo (state (fold fire xs this)) =
     (emphasizeUndo (state this) \<and> (\<forall>x \<in> set xs. action x \<noteq> ResetEmphasizeUndo))"
  by (induction xs arbitrary: this) (auto simp: fire_def split: timer_action.splits)

lemma fold_fire_redo:
  "(emphasizeRedo (state (fold fire xs this)) = Some True) =
     (emphasizeRedo (state this) = Some True \<and> (\<forall>x \<in> set xs. action x \<noteq> ResetEmphasizeRedo))"
  by (induction xs arbitrary: this) (auto simp: fire_def split: timer_action.splits)

lemma fold_fire_handles:
  "ctrlZTimeout (fold fire xs this) = ctrlZTimeout this"
  "ctrlYTimeout (fold fire xs this) = ctrlYTimeout this"
  by (induction xs arbitrary: this) (auto simp: fire_def split: timer_action.splits)

lemma fired_undo:
  "emphasizeUndo (state (fold fire (sort_key due (filter (\<lambda>x. due x \<le> n) ts)) this)) =
     (emphasizeUndo (state this)
      \<and> (\<forall>x \<in> set ts. due x \<le> n \<longrightarrow> action x \<noteq> ResetEmphasizeUndo))"
  by (auto simp: fold_fire_undo)

lemma fired_redo:
  "(emphasizeRedo (state (fold fire (sort_key due (filter (\<lambda>x. due x \<le> n) ts)) this))
      = Some True) =
     (emphasizeRedo (state this) = Some True
      \<and> (\<forall>x \<in> set ts. due x \<le> n \<longrightarrow> action x \<noteq> ResetEmphasizeRedo))"
  by (auto simp: fold_fire_redo)

lemma advance_eq:
  "advance t (this, b) =
     (fold fire (sort_key due (filter (\<lambda>x. due x \<le> max (now b) t) (timers b))) this,
      elapse (max (now b) t) b)"
  by (simp add: advance_def elapse_def Let_def)

lemma sys_inv_advance:
  assumes "sys_inv lz ly sys"
  shows "sys_inv lz ly (advance t sys)"
    and "now (snd (advance t sys)) = max (now (snd sys)) t"
proof -
  obtain this b where s: "sys = (this, b)" by (cases sys)
  let ?n = "max (now b) t"
  have n: "now b \<le> ?n" by simp
  from assms s have i: "browser_inv b"
    "pulse_inv ResetEmphasizeUndo (ctrlZTimeout this) (emphasizeUndo (state this)) lz b"
    "pulse_inv ResetEmphasizeRedo (ctrlYTimeout this) (emphasizeRedo (state this) = Some True) ly b"
    by (simp_all add: sys_inv_def)
  show "sys_inv lz ly (advance t sys)"
    using browser_inv_elapse [OF i(1), of ?n] pulse_inv_elapse [OF i(2) n]
      pulse_inv_elapse [OF i(3) n]
    by (simp add: s advance_eq sys_inv_def fired_undo fired_redo fold_fire_handles)
  show "now (snd (advance t sys)) = max (now (snd sys)) t"
    by (simp add: s advance_eq elapse_def)
qed

lemma handleCtrlZ_eq:
  "handleCtrlZ (this, b) =
     ((this\<lparr>state := (state this)\<lparr>emphasizeUndo := True\<rparr>, ctrlZTimeout := Some (next_id b)\<rparr>,
       arm ResetEmphasizeUndo (disarm (ctrlZTimeout this) b)), [OnUndo])"
  by (simp add: handleCtrlZ_def arm_def disarm_def setTimeout_def clearTimeout_def Let_def
      split: option.splits)

lemma handleCtrlY_eq:
  "handleCtrlY (this, b) =
     ((this\<lparr>state := (state this)\<lparr>emphasizeRedo := Some True\<rparr>, ctrlYTimeout := Some (next_id b)\<rparr>,
       arm ResetEmphasizeRedo (disarm (ctrlYTimeout this) b)), [OnRedo])"
  by (simp add: handleCtrlY_def arm_def disarm_def setTimeout_def clearTimeout_def Let_def
      split: option.splits)

lemma disarm_simps:
  "now (disarm handle b) = now b"
  "next_id (disarm handle b) = next_id b"
  "timers (disarm handle b) = filter (\<lambda>x. \<not> (handle = Some (tid x) \<and> tid x \<noteq> 0)) (timers b)"
  by (auto simp: disarm_def clearTimeout_def split: option.splits intro: filter_cong)

lemma arm_simps:
  "now (arm act b) = now b"
  "next_id (arm act b) = Suc (next_id b)"
  "timers (arm act b) = timers b @ [\<lparr>tid = next_id b, due = now b + 100, action = act\<rparr>]"
  by (simp_all add: arm_def setTimeout_def)

lemma armed_arm:
  "armed act' (arm act b) =
     armed act' b @ (if act = act' then [\<lparr>tid = next_id b, due = now b + 100, action = act\<rparr>] else [])"
  by (simp add: armed_def arm_simps)

lemma armed_disarm_same:
  assumes "pulse_inv act handle emph lastp b"
  shows "armed act (disarm handle b) = []"
proof (cases lastp)
  case None
  with assms show ?thesis by (simp add: pulse_inv_def disarm_def)
next
  case (Some s)
  with assms obtain i where i: "handle = Some i" "0 < i"
    "armed act b = (if now b < s + 100 then [\<lparr>tid = i, due = s + 100, action = act\<rparr>] else [])"
    by (cases handle) (simp_all add: pulse_inv_def)
  have "armed act (disarm handle b) =
      filter (\<lambda>x. \<not> (handle = Some (tid x) \<and> tid x \<noteq> 0)) (armed act b)"
    by (auto simp: armed_def disarm_simps intro: filter_cong)
  with i show ?thesis by simp
qed

lemma armed_disarm_other:
  assumes "pulse_inv act handle emph lastp b" and "act' \<noteq> act"
  shows "armed act' (disarm handle b) = armed act' b"
proof (cases handle)
  case None
  then show ?thesis by (simp add: disarm_def)
next
  case (Some i)
  with assms(1) have "\<forall>x \<in> set (timers b). tid x = i \<longrightarrow> action x = act"
    by (cases lastp) (simp_all add: pulse_inv_def)
  with assms(2) Some show ?thesis
    by (auto simp: armed_def disarm_simps intro!: filter_cong)
qed

lemma browser_inv_press: "browser_inv b \<Longrightarrow> browser_inv (arm act (disarm handle b))"
  by (auto simp: browser_inv_def arm_simps disarm_simps less_Suc_eq)

lemma pulse_inv_press:
  assumes "browser_inv b" and "pulse_inv act handle emph lastp b"
  shows "pulse_inv act (Some (next_id b)) True (Some (now b)) (arm act (disarm handle b))"
proof -
  from assms(1) have "0 < next_id b" "\<forall>x \<in> set (timers b). tid x \<noteq> next_id b"
    by (auto simp: browser_inv_def)
  then show ?thesis
    using armed_disarm_same [OF assms(2)]
    by (auto simp: pulse_inv_def armed_arm arm_simps disarm_simps)
qed

lemma pulse_inv_other:
  assumes "browser_inv b" and "pulse_inv act handle emph lastp b" and "act' \<noteq> act"
    and "pulse_inv act' handle' emph' lastp' b"
  shows "pulse_inv act' handle' emph' lastp' (arm act (disarm handle b))"
proof (cases lastp')
  case None
  with assms(4) show ?thesis
    using armed_disarm_other [OF assms(2) assms(3)] assms(3)
    by (auto simp: pulse_inv_def armed_arm)
next
  case (Some s)
  with assms(4) obtain i where i: "handle' = Some i"
    by (cases handle') (simp_all add: pulse_inv_def)
  from assms(1) have "\<forall>x \<in> set (timers b). tid x < next_id b"
    by (simp add: browser_inv_def)
  with Some i assms(4) show ?thesis
    using armed_disarm_other [OF assms(2) assms(3)] assms(3)
    by (auto simp: pulse_inv_def armed_arm arm_simps disarm_simps)
qed

lemma sys_inv_handleCtrlZ:
  assumes "sys_inv lz ly sys"
  shows "sys_inv (Some (now (snd sys))) ly (fst (handleCtrlZ sys))"
    and "now (snd (fst (handleCtrlZ sys))) = now (snd sys)"
proof -
  obtain this b where s: "sys = (this, b)" by (cases sys)
  from assms s have i: "browser_inv b"
    "pulse_inv ResetEmphasizeUndo (ctrlZTimeout this) (emphasizeUndo (state this)) lz b"
    "pulse_inv ResetEmphasizeRedo (ctrlYTimeout this) (emphasizeRedo (state this) = Some True) ly b"
    by (simp_all add: sys_inv_def)
  show "sys_inv (Some (now (snd sys))) ly (fst (handleCtrlZ sys))"
    using browser_inv_press [OF i(1), of ResetEmphasizeUndo "ctrlZTimeout this"]
      pulse_inv_press [OF i(1) i(2)]
      pulse_inv_other [OF i(1) i(2) _ i(3)]
    by (simp add: s handleCtrlZ_eq sys_inv_def)
  show "now (snd (fst (handleCtrlZ sys))) = now (snd sys)"
    by (simp add: s handleCtrlZ_eq arm_simps disarm_simps)
qed

lemma sys_inv_handleCtrlY:
  assumes "sys_inv lz ly sys"
  shows "sys_inv lz (Some (now (snd sys))) (fst (handleCtrlY sys))"
    and "now (snd (fst (handleCtrlY sys))) = now (snd sys)"
proof -
  obtain this b where s: "sys = (this, b)" by (cases sys)
  from assms s have i: "browser_inv b"
    "pulse_inv ResetEmphasizeUndo (ctrlZTimeout this) (emphasizeUndo (state this)) lz b"
    "pulse_inv ResetEmphasizeRedo (ctrlYTimeout this) (emphasizeRedo (state this) = Some True) ly b"
    by (simp_all add: sys_inv_def)
  show "sys_inv lz (Some (now (snd sys))) (fst (handleCtrlY sys))"
    using browser_inv_press [OF i(1), of ResetEmphasizeRedo "ctrlYTimeout this"]
      pulse_inv_press [OF i(1) i(3)]
      pulse_inv_other [OF i(1) i(3) _ i(2)]
    by (simp add: s handleCtrlY_eq sys_inv_def)
  show "now (snd (fst (handleCtrlY sys))) = now (snd sys)"
    by (simp add: s handleCtrlY_eq arm_simps disarm_simps)
qed

lemma last_press_Cons:
  "last_press k (ev # evs) =
     (case last_press k evs of
        None \<Rightarrow> if snd ev = k then Some (fst ev) else None
      | Some s \<Rightarrow> Some s)"
  by (cases "filter (\<lambda>ev. snd ev = k) evs") (simp_all add: last_press_def)

lemma last_press_Nil: "last_press k [] = None"
  by (simp add: last_press_def)

lemma sys_inv_press:
  assumes "sys_inv lz ly sys" and "now (snd sys) \<le> t"
  shows "sys_inv (if k = CtrlZ then Some t else lz) (if k = CtrlY then Some t else ly)
           (press (t, k) sys)"
    and "now (snd (press (t, k) sys)) = t"
proof -
  from assms(2) have m: "max (now (snd sys)) t = t" by simp
  note a = sys_inv_advance [OF assms(1), of t, unfolded m]
  show "sys_inv (if k = CtrlZ then Some t else lz) (if k = CtrlY then Some t else ly)
           (press (t, k) sys)"
    using sys_inv_handleCtrlZ(1) [OF a(1)] sys_inv_handleCtrlY(1) [OF a(1)] a(2)
    by (cases k) (simp_all add: press_def)
  show "now (snd (press (t, k) sys)) = t"
    using sys_inv_handleCtrlZ(2) [OF a(1)] sys_inv_handleCtrlY(2) [OF a(1)] a(2)
    by (cases k) (simp_all add: press_def)
qed

lemma sys_inv_run:
  assumes "sys_inv lz ly sys" and "sorted (map fst evs)"
    and "\<forall>ev \<in> set evs. now (snd sys) \<le> fst ev"
  shows "sys_inv (case last_press CtrlZ evs of None \<Rightarrow> lz | Some s \<Rightarrow> Some s)
           (case last_press CtrlY evs of None \<Rightarrow> ly | Some s \<Rightarrow> Some s) (run evs sys)
         \<and> now (snd (run evs sys)) = (if evs = [] then now (snd sys) else fst (last evs))"
  using assms
proof (induction evs arbitrary: lz ly sys)
  case Nil
  then show ?case by (simp add: run_def last_press_Nil)
next
  case (Cons ev evs)
  obtain t k where ev: "ev = (t, k)" by (cases ev)
  from Cons.prems(3) ev have t: "now (snd sys) \<le> t" by simp
  note p = sys_inv_press [OF Cons.prems(1) t, of k]
  from Cons.prems(2) ev have s: "sorted (map fst evs)" "\<forall>e \<in> set evs. t \<le> fst e"
    by auto
  from s(2) p(2) have n: "\<forall>e \<in> set evs. now (snd (press (t, k) sys)) \<le> fst e"
    by simp
  have r: "run (ev # evs) sys = run evs (press (t, k) sys)"
    by (simp add: run_def ev)
  from Cons.IH [OF p(1) s(1) n] p(2) show ?case
    unfolding r
    by (cases k; cases "last_press CtrlZ evs"; cases "last_press CtrlY evs")
       (simp_all add: last_press_Cons ev)
qed

lemma sys_inv_initial: "sys_inv None None (constructor p, initial_browser)"
  by (simp add: sys_inv_def browser_inv_def pulse_inv_def constructor_def initial_browser_def
      armed_def)

lemma pulse_inv_read:
  assumes "pulse_inv act handle emph lastp b"
  shows "emph = (case lastp of None \<Rightarrow> False | Some s \<Rightarrow> now b < s + 100)"
    and "map due (armed act b) =
           (case lastp of None \<Rightarrow> [] | Some s \<Rightarrow> if now b < s + 100 then [s + 100] else [])"
  using assms
  by (cases lastp; cases handle; simp add: pulse_inv_def)+

text \<open>
  C3. Take any presses of Ctrl-Z and Ctrl-Y, in order of time, and any time \<open>t\<close> not
  before the last of them. At time \<open>t\<close> the undo emphasis is on exactly when Ctrl-Z was
  pressed and \<open>t\<close> is less than 100 ms after its most recent press; likewise the redo
  emphasis and Ctrl-Y. While a pulse is on, exactly one timer is armed for it, due 100 ms
  after that most recent press, and none otherwise: a press within the window replaces the
  timer, it does not add one.
\<close>

theorem pulse_lasts_100ms:
  assumes "sorted (map fst evs)" and "\<forall>ev \<in> set evs. fst ev \<le> t"
  shows "emphasizeUndo (state (fst (advance t (run evs (constructor p, initial_browser))))) =
           (case last_press CtrlZ evs of None \<Rightarrow> False | Some s \<Rightarrow> t < s + 100)
       \<and> (emphasizeRedo (state (fst (advance t (run evs (constructor p, initial_browser)))))
            = Some True) =
           (case last_press CtrlY evs of None \<Rightarrow> False | Some s \<Rightarrow> t < s + 100)
       \<and> map due (armed ResetEmphasizeUndo
            (snd (advance t (run evs (constructor p, initial_browser))))) =
           (case last_press CtrlZ evs of
              None \<Rightarrow> [] | Some s \<Rightarrow> if t < s + 100 then [s + 100] else [])
       \<and> map due (armed ResetEmphasizeRedo
            (snd (advance t (run evs (constructor p, initial_browser))))) =
           (case last_press CtrlY evs of
              None \<Rightarrow> [] | Some s \<Rightarrow> if t < s + 100 then [s + 100] else [])"
proof -
  let ?sys = "run evs (constructor p, initial_browser)"
  let ?lz = "last_press CtrlZ evs" and ?ly = "last_press CtrlY evs"
  have z: "\<forall>ev \<in> set evs. now (snd (constructor p, initial_browser)) \<le> fst ev"
    by (simp add: initial_browser_def)
  from sys_inv_run [OF sys_inv_initial assms(1) z]
  have i: "sys_inv ?lz ?ly ?sys"
    and n: "now (snd ?sys) = (if evs = [] then 0 else fst (last evs))"
    by (cases ?lz; cases ?ly; simp add: initial_browser_def)+
  from n assms(2) have le: "max (now (snd ?sys)) t = t"
    by (cases "evs = []") simp_all
  obtain this b where a: "advance t ?sys = (this, b)"
    by (cases "advance t ?sys")
  from sys_inv_advance [OF i, of t] le a have "sys_inv ?lz ?ly (this, b)" and t: "now b = t"
    by simp_all
  then have u: "pulse_inv ResetEmphasizeUndo (ctrlZTimeout this) (emphasizeUndo (state this)) ?lz b"
    and r: "pulse_inv ResetEmphasizeRedo (ctrlYTimeout this)
              (emphasizeRedo (state this) = Some True) ?ly b"
    by (simp_all add: sys_inv_def)
  from pulse_inv_read [OF u, unfolded t] pulse_inv_read [OF r, unfolded t] show ?thesis
    by (simp add: a)
qed

theorem pulse_lasts_100ms_witness:
  "emphasizeUndo (state (fst (advance 150
      (run example_presses (constructor example_props, initial_browser)))))
   \<and> emphasizeRedo (state (fst (advance 150
      (run example_presses (constructor example_props, initial_browser))))) = Some True
   \<and> map due (armed ResetEmphasizeUndo (snd (advance 150
      (run example_presses (constructor example_props, initial_browser))))) = [160]
   \<and> \<not> emphasizeUndo (state (fst (advance 160
      (run example_presses (constructor example_props, initial_browser)))))
   \<and> map due (armed ResetEmphasizeUndo (snd (advance 160
      (run example_presses (constructor example_props, initial_browser))))) = []"
proof -
  have s: "sorted (map fst example_presses)"
    by (simp add: example_presses_def)
  have b: "\<forall>ev \<in> set example_presses. fst ev \<le> 150"
    "\<forall>ev \<in> set example_presses. fst ev \<le> 160"
    by (simp_all add: example_presses_def)
  have l: "last_press CtrlZ example_presses = Some 60"
    "last_press CtrlY example_presses = Some 70"
    by (simp_all add: last_press_def example_presses_def)
  from pulse_lasts_100ms [OF s b(1), of example_props]
    pulse_lasts_100ms [OF s b(2), of example_props]
  show ?thesis by (simp add: l)
qed

subsection \<open>Saving and the edit mode\<close>

text \<open>
  C8. \<open>overwriteDashboard\<close> makes one call, to \<open>onSave\<close>, and nothing else: its first
  argument is an object with exactly the properties \<open>positions\<close> (the layout),
  \<open>expanded_slices\<close>, \<open>css\<close>, \<open>dashboard_title\<close> and \<open>default_filters\<close> (the filters
  serialised by \<open>JSON.stringify\<close>), its second the id of the dashboard, its third the
  overwrite save type. There is no second call, hence no retry.
\<close>

theorem overwriteDashboard_saves_once:
  "\<exists>fs. overwriteDashboard JSON_stringify SAVE_TYPE_OVERWRITE this =
          [OnSave (JObj fs) (dash_id (dashboardInfo (props this))) SAVE_TYPE_OVERWRITE]
      \<and> map fst fs = [''positions'', ''expanded_slices'', ''css'', ''dashboard_title'',
                       ''default_filters'']
      \<and> field fs ''positions'' = layout (props this)
      \<and> field fs ''expanded_slices'' = expandedSlices (props this)
      \<and> field fs ''css'' = JStr (css (props this))
      \<and> field fs ''dashboard_title'' = JStr (dashboardTitle (props this))
      \<and> field fs ''default_filters'' = JStr (JSON_stringify (filters (props this)))"
  by (simp add: overwriteDashboard_def field_def)

text \<open>
  C9. \<open>toggleEditMode\<close> makes one call, \<open>setEditMode\<close> with the negation of the current
  \<open>editMode\<close>; it calls neither \<open>onUndo\<close> nor \<open>onRedo\<close>. On the store the call sets the
  edit mode to that negation and leaves the history as it was: the same past and future
  operations, hence the same \<open>undoLength\<close> and \<open>redoLength\<close>.
\<close>

theorem toggleEditMode_frame:
  "toggleEditMode this = [SetEditMode (\<not> editMode (props this))]
   \<and> fold dispatch (toggleEditMode this) st = st\<lparr>store_editMode := \<not> editMode (props this)\<rparr>
   \<and> past (fold dispatch (toggleEditMode this) st) = past st
   \<and> future (fold dispatch (toggleEditMode this) st) = future st
   \<and> length (past (fold dispatch (toggleEditMode this) st)) = length (past st)
   \<and> length (future (fold dispatch (toggleEditMode this) st)) = length (future st)"
  by (simp add: toggleEditMode_def)

subsection \<open>The buttons of the toolbar\<close>

lemma undo_buttons:
  "buttons_for Props_onUndo (render isV2 this) =
     (if dash_save_perm (dashboardInfo (props this)) \<and> editMode (props this)
      then [\<lparr>label = ''Undo'', onClick = Props_onUndo,
             disabled = (undoLength (props this) < 1),
             bsStyle = (if emphasizeUndo (state this) then Some ''primary'' else None)\<rparr>]
      else [])"
  by (simp add: buttons_for_def buttons_def render_def Let_def)

lemma redo_buttons:
  "buttons_for Props_onRedo (render isV2 this) =
     (if dash_save_perm (dashboardInfo (props this)) \<and> editMode (props this)
      then [\<lparr>label = ''Redo'', onClick = Props_onRedo,
             disabled = (redoLength (props this) < 1),
             bsStyle = (if emphasizeRedo (state this) = Some True
                        then Some ''primary'' else None)\<rparr>]
      else [])"
  by (simp add: buttons_for_def buttons_def render_def Let_def)

lemma overwrite_buttons:
  "buttons_for This_overwriteDashboard (render isV2 this) =
     (if dash_save_perm (dashboardInfo (props this)) \<and> editMode (props this)
         \<and> (hasUnsavedChanges (props this) \<or> isV2Preview (props this))
      then [\<lparr>label = (if isV2 then ''Save changes'' else ''Persist as Dashboard v2''),
             onClick = This_overwriteDashboard, disabled = False,
             bsStyle = Some ''primary''\<rparr>]
      else [])"
  by (simp add: buttons_for_def buttons_def render_def Let_def)

text \<open>
  C6, as stated, says that the undo control is disabled exactly when \<open>undoLength < 1\<close>
  whatever the edit mode. Outside edit mode there is no undo control at all: with save
  permission, five steps of history and \<open>editMode\<close> false, no button bound to \<open>onUndo\<close> is
  rendered, so undo is not on offer although \<open>undoLength\<close> is not below 1.
\<close>

theorem undo_control_counterexample:
  "dash_save_perm (dashboardInfo (props (constructor view_props)))
   \<and> \<not> editMode (props (constructor view_props))
   \<and> \<not> undoLength (props (constructor view_props)) < 1
   \<and> buttons_for Props_onUndo (render False (constructor view_props)) = []"
  by (simp add: buttons_for_def buttons_def render_def constructor_def view_props_def
      example_props_def)

text \<open>
  C6, amended. The undo and redo buttons are rendered exactly when the user has save
  permission and \<open>editMode\<close> holds. A rendered undo button is disabled exactly when
  \<open>undoLength < 1\<close>, a rendered redo button exactly when \<open>redoLength < 1\<close>. The button
  bound to \<open>overwriteDashboard\<close> is rendered exactly when the user has save permission,
  \<open>editMode\<close> holds and there are unsaved changes or the dashboard is a v2 preview; the
  edit permission plays no part in it.
\<close>

theorem render_button_gating:
  "(\<forall>b \<in> set (buttons_for Props_onUndo (render isV2 this)).
       disabled b = (undoLength (props this) < 1))
   \<and> (\<forall>b \<in> set (buttons_for Props_onRedo (render isV2 this)).
       disabled b = (redoLength (props this) < 1))
   \<and> (length (buttons_for Props_onUndo (render isV2 this)) =
        (if dash_save_perm (dashboardInfo (props this)) \<and> editMode (props this) then 1 else 0))
   \<and> (length (buttons_for Props_onRedo (render isV2 this)) =
        (if dash_save_perm (dashboardInfo (props this)) \<and> editMode (props this) then 1 else 0))
   \<and> (length (buttons_for This_overwriteDashboard (render isV2 this)) =
        (if dash_save_perm (dashboardInfo (props this)) \<and> editMode (props this)
            \<and> (hasUnsavedChanges (props this) \<or> isV2Preview (props this)) then 1 else 0))"
  by (simp add: undo_buttons redo_buttons overwrite_buttons)

theorem render_button_gating_witness:
  "map disabled (buttons_for Props_onUndo (render True (constructor example_props))) = [True]
   \<and> map disabled (buttons_for Props_onRedo (render True (constructor example_props))) = [False]
   \<and> length (buttons_for This_overwriteDashboard (render True (constructor example_props))) = 1"
proof -
  let ?v = "render True (constructor example_props)"
  have p: "dash_save_perm (dashboardInfo (props (constructor example_props)))"
    "editMode (props (constructor example_props))"
    "hasUnsavedChanges (props (constructor example_props))"
    "undoLength (props (constructor example_props)) = 0"
    "redoLength (props (constructor example_props)) = 2"
    by (simp_all add: constructor_def example_props_def)
  have g: "(\<forall>b \<in> set (buttons_for Props_onUndo ?v). disabled b)
      \<and> (\<forall>b \<in> set (buttons_for Props_onRedo ?v). \<not> disabled b)
      \<and> length (buttons_for Props_onUndo ?v) = 1
      \<and> length (buttons_for Props_onRedo ?v) = 1
      \<and> length (buttons_for This_overwriteDashboard ?v) = 1"
    using render_button_gating [of True "constructor example_props"] by (simp add: p)
  from g have "map disabled (buttons_for Props_onUndo ?v) = [True]"
    by (cases "buttons_for Props_onUndo ?v") auto
  moreover from g have "map disabled (buttons_for Props_onRedo ?v) = [False]"
    by (cases "buttons_for Props_onRedo ?v") auto
  ultimately show ?thesis using g by simp
qed

end
